theory Spec2Isabelle
  imports Main "HOL-Library.List_Lexorder" "HOL-Library.Char_ord"
begin

section \<open>Python values used by the link-capture scripts\<close>

text \<open>
  Exceptions are values. The scripts raise \<open>ValueError\<close> themselves; everything the
  browser driver, the URL builder or the HTML parser may raise is caught (or propagated)
  as a plain \<open>Exception\<close>, so one constructor stands for all of them.
  \<open>OverflowError\<close> stands for what the interpreter raises when a list cannot be built
  (\<open>OverflowError\<close> or \<open>MemoryError\<close>, both of them an \<open>Exception\<close>).
\<close>

datatype py_exception = ValueError string | DriverException string | OverflowError

text \<open>
  Texts are byte strings. On ASCII text \<open>str.isspace\<close> holds for the characters
  \<open>0x09\<close> to \<open>0x0d\<close>, \<open>0x1c\<close> to \<open>0x1f\<close> and the blank, \<open>str.isdigit\<close> holds for a
  non-empty text of the digits \<open>0\<close> to \<open>9\<close>, and \<open>int\<close> reads such a text in base ten.
  (Texts outside ASCII, and digit texts beyond the interpreter's conversion limit, are
  outside this model.)
\<close>

definition py_isspace :: "char \<Rightarrow> bool" where
  "py_isspace c = (let n = (of_char c :: nat) in (9 \<le> n \<and> n \<le> 13) \<or> (28 \<le> n \<and> n \<le> 32))"

text \<open>\<open>s.strip()\<close>\<close>

definition py_strip :: "string \<Rightarrow> string" where
  "py_strip s = rev (dropWhile py_isspace (rev (dropWhile py_isspace s)))"

text \<open>\<open>s.strip("/")\<close>, for any single character\<close>

definition py_strip_char :: "char \<Rightarrow> string \<Rightarrow> string" where
  "py_strip_char x s = rev (dropWhile (\<lambda>c. c = x) (rev (dropWhile (\<lambda>c. c = x) s)))"

text \<open>
  \<open>s.split(sep)\<close> for a one-character separator: never an empty list, and the empty
  pieces between adjacent separators are kept.
\<close>

fun py_split :: "char \<Rightarrow> string \<Rightarrow> string list" where
  "py_split sep [] = [[]]"
| "py_split sep (c # cs) =
     (if c = sep then [] # py_split sep cs
      else (case py_split sep cs of
              [] \<Rightarrow> [[c]]
            | p # ps \<Rightarrow> (c # p) # ps))"

definition is_digit_char :: "char \<Rightarrow> bool" where
  "is_digit_char c = (let n = (of_char c :: nat) in 48 \<le> n \<and> n \<le> 57)"

definition py_isdigit :: "string \<Rightarrow> bool" where
  "py_isdigit s = (s \<noteq> [] \<and> list_all is_digit_char s)"

definition py_int :: "string \<Rightarrow> int" where
  "py_int s = foldl (\<lambda>acc c. 10 * acc + (int (of_char c) - 48)) 0 s"

text \<open>\<open>x or ""\<close> for an optional text: \<open>None\<close> and the empty text both give the empty text.\<close>

definition or_empty :: "string option \<Rightarrow> string" where
  "or_empty t = (case t of None \<Rightarrow> [] | Some s \<Rightarrow> s)"

text \<open>
  \<open>xs[:n]\<close> for an integer \<open>n\<close>: the first \<open>n\<close> elements when \<open>n\<close> is not negative,
  all but the last \<open>-n\<close> elements when it is.
\<close>

definition py_slice_to :: "'a list \<Rightarrow> int \<Rightarrow> 'a list" where
  "py_slice_to xs n =
     (if 0 \<le> n then take (nat n) xs else take (nat (int (length xs) + n)) xs)"

text \<open>
  \<open>list(range(lo, hi))\<close>. The list has \<open>hi - lo\<close> elements (none when that is
  negative) and is built in full. \<open>max_list_len\<close> is the longest list the interpreter
  can build: never more than \<open>sys.maxsize\<close>, less when memory is short. Beyond it the
  call raises.
\<close>

definition py_list_range :: "nat \<Rightarrow> int \<Rightarrow> int \<Rightarrow> py_exception + int list" where
  "py_list_range max_list_len lo hi =
     (if int max_list_len < hi - lo then Inl OverflowError else Inr [lo..hi - 1])"

text \<open>\<open>sys.maxsize\<close> of a 64-bit interpreter\<close>

definition sys_maxsize :: nat where
  "sys_maxsize = 9223372036854775807"

text \<open>
  \<open>list(set(xs))\<close>. A Python set iterates over its distinct elements in an order the
  language does not fix; \<open>set_order\<close> stands for that order: it rearranges the
  duplicate-free list it is given.
\<close>

definition py_list_set :: "('a list \<Rightarrow> 'a list) \<Rightarrow> 'a list \<Rightarrow> 'a list" where
  "py_list_set set_order xs = set_order (remdups xs)"

definition is_set_order :: "('a list \<Rightarrow> 'a list) \<Rightarrow> bool" where
  "is_set_order set_order =
     (\<forall>ys. distinct ys \<longrightarrow> distinct (set_order ys) \<and> set (set_order ys) = set ys)"

text \<open>\<open>sorted(set(xs))\<close>: ascending, without duplicates, whatever the set's own order.\<close>

definition py_sorted_set :: "'a::linorder list \<Rightarrow> 'a list" where
  "py_sorted_set xs = sort (remdups xs)"


section \<open>Pagination discovery: \<open>get_pagination_pages\<close>\<close>

text \<open>
  What the function reads from the browser. An element's \<open>text\<close> may raise (a stale
  element) or be \<open>None\<close>. \<open>live_anchors\<close> is the result of
  \<open>find_elements("a.pagination-link:not([rel='next'])")\<close>; \<open>markup_texts\<close> is the result
  of reading \<open>page_source\<close>, parsing it and taking \<open>get_text()\<close> of each selected node.
  The preliminary scroll and the wait for pagination elements are wrapped in
  \<open>try\<close>/\<open>except: pass\<close> and leave no trace in the result.
\<close>

record web_element =
  elem_text :: "py_exception + string option"
  js_click :: "py_exception + unit"
  native_click :: "py_exception + unit"

record pagination_obs =
  live_anchors :: "py_exception + web_element list"
  markup_texts :: "py_exception + string list"

text \<open>The loop over the live elements: an element whose text raises is skipped.\<close>

fun live_pages :: "web_element list \<Rightarrow> int list" where
  "live_pages [] = []"
| "live_pages (e # es) =
     (case elem_text e of
        Inl _ \<Rightarrow> live_pages es
      | Inr t \<Rightarrow>
          (let s = py_strip (or_empty t)
           in if py_isdigit s then py_int s # live_pages es else live_pages es))"

text \<open>The fallback loop over the nodes selected in the page markup.\<close>

fun markup_pages :: "string list \<Rightarrow> int list" where
  "markup_pages [] = []"
| "markup_pages (t # ts) =
     (let txt = py_strip t
      in if py_isdigit txt then py_int txt # markup_pages ts else markup_pages ts)"

text \<open>The two attempts, and the value of \<open>pages\<close> when the function reaches
  \<open>if not pages: return [1]\<close>: the markup is parsed only when the live query gave nothing.\<close>

definition live_indices :: "pagination_obs \<Rightarrow> int list" where
  "live_indices obs = (case live_anchors obs of Inl _ \<Rightarrow> [] | Inr es \<Rightarrow> live_pages es)"

definition markup_indices :: "pagination_obs \<Rightarrow> int list" where
  "markup_indices obs = (case markup_texts obs of Inl _ \<Rightarrow> [] | Inr ts \<Rightarrow> markup_pages ts)"

definition discovered_pages :: "pagination_obs \<Rightarrow> int list" where
  "discovered_pages obs =
     (let pages = live_indices obs
      in if pages = [] then markup_indices obs else pages)"

text \<open>
  The rest of the function, from the discovered indices: \<open>sorted(set(pages))\<close>, its
  minimum and maximum, \<open>list(range(min_p, max_p + 1))\<close>, and the slice when
  \<open>max_pages\<close> is truthy (an integer other than zero). All of it runs inside the outer
  \<open>try\<close>, whose handler \<open>except Exception: return [1]\<close> catches what building the list
  raises; \<open>min\<close> of an empty list would raise too, which is the inner \<open>[]\<close> case, and
  the test before it excludes that.
\<close>

definition truthy :: "int option \<Rightarrow> bool" where
  "truthy m = (case m of None \<Rightarrow> False | Some n \<Rightarrow> n \<noteq> 0)"

definition pagination_range :: "nat \<Rightarrow> int list \<Rightarrow> int option \<Rightarrow> int list" where
  "pagination_range max_list_len pages max_pages =
     (if pages = [] then [1]
      else (case py_sorted_set pages of
              [] \<Rightarrow> [1]
            | p # ps \<Rightarrow>
                (let min_p = fold min ps p;
                     max_p = fold max ps p
                 in (case py_list_range max_list_len min_p (max_p + 1) of
                       Inl _ \<Rightarrow> [1]
                     | Inr full \<Rightarrow>
                         if truthy max_pages then py_slice_to full (the max_pages) else full))))"

definition get_pagination_pages :: "nat \<Rightarrow> pagination_obs \<Rightarrow> int option \<Rightarrow> int list" where
  "get_pagination_pages max_list_len obs max_pages =
     pagination_range max_list_len (discovered_pages obs) max_pages"

text \<open>
  The words of the spec, for comparison: the contiguous run of integers from the
  smallest to the largest discovered index.
\<close>

definition contiguous_range :: "pagination_obs \<Rightarrow> int list" where
  "contiguous_range obs =
     [Min (set (discovered_pages obs))..Max (set (discovered_pages obs))]"

text \<open>Anchors as the browser shows them: a readable text, both ways of clicking work.\<close>

definition anchor :: "string \<Rightarrow> web_element" where
  "anchor t = \<lparr>elem_text = Inr (Some t), js_click = Inr (), native_click = Inr ()\<rparr>"

definition stale_anchor :: web_element where
  "stale_anchor =
     \<lparr>elem_text = Inl (DriverException ''stale element''), js_click = Inr (),
      native_click = Inr ()\<rparr>"


text \<open>The scenario of the spec: anchors with the texts 1 to 5.\<close>

definition anchors_1_to_5 :: pagination_obs where
  "anchors_1_to_5 =
     \<lparr>live_anchors = Inr [anchor ''1'', anchor ''2'', anchor ''3'', anchor ''4'', anchor ''5''],
      markup_texts = Inr []\<rparr>"

text \<open>Two anchors whose indices are further apart than any list is long.\<close>

definition anchors_far_apart :: pagination_obs where
  "anchors_far_apart =
     \<lparr>live_anchors = Inr [anchor ''1'', anchor ''10000000000000000000''],
      markup_texts = Inr []\<rparr>"


section \<open>Link harvesting: \<open>extract_match_links_from_html\<close>\<close>

text \<open>
  The parsed page, as far as the harvester reads it: every tag has a name, the list of
  its classes (empty when it has no \<open>class\<close> attribute), its \<open>href\<close> when it has one,
  and its child tags. The parser itself is a library; the parsed document (its root, whose
  descendants are the page's tags) is the input here.
\<close>

datatype tag =
  Tag (tag_name: string) (tag_classes: "string list") (tag_href: "string option")
      (tag_children: "tag list")

text \<open>\<open>find_all\<close> searches the descendants of a tag, in document order.\<close>

fun descendants :: "tag \<Rightarrow> tag list" where
  "descendants (Tag n cs h ch) = concat (map (\<lambda>t. t # descendants t) ch)"

definition starts_with :: "string \<Rightarrow> string \<Rightarrow> bool" where
  "starts_with p s = (take (length p) s = p)"

text \<open>\<open>soup.find_all(class_=re.compile("^eventRow"))\<close>: a tag is selected when one of its
  classes begins with \<open>eventRow\<close>.\<close>

definition event_rows :: "tag \<Rightarrow> tag list" where
  "event_rows soup =
     filter (\<lambda>t. list_ex (starts_with ''eventRow'') (tag_classes t)) (descendants soup)"

text \<open>\<open>row.find_all("a", href=True)\<close>\<close>

definition anchors_with_href :: "tag \<Rightarrow> tag list" where
  "anchors_with_href row =
     filter (\<lambda>t. tag_name t = ''a'' \<and> tag_href t \<noteq> None) (descendants row)"

text \<open>The test of the comprehension: \<open>len(href.strip("/").split("/")) > 3\<close>.\<close>

definition href_segments :: "string \<Rightarrow> string list" where
  "href_segments href = py_split CHR ''/'' (py_strip_char CHR ''/'' href)"

definition is_match_href :: "string \<Rightarrow> bool" where
  "is_match_href href = (3 < length (href_segments href))"

text \<open>
  The hrefs that pass, in document order, before they are prefixed and put in a set.
\<close>

definition match_hrefs :: "tag \<Rightarrow> string list" where
  "match_hrefs soup =
     concat (map (\<lambda>row. filter is_match_href
                          (map (\<lambda>a. or_empty (tag_href a)) (anchors_with_href row)))
                 (event_rows soup))"

text \<open>
  The function itself. \<open>base\<close> is the constant \<open>ODDSPORTAL_BASE_URL\<close>, which is
  imported from a module outside the sources at hand, hence a parameter.
\<close>

definition extract_match_links_from_html ::
  "(string list \<Rightarrow> string list) \<Rightarrow> string \<Rightarrow> tag \<Rightarrow> string list" where
  "extract_match_links_from_html set_order base soup =
     py_list_set set_order (map (\<lambda>h. base @ h) (match_hrefs soup))"

text \<open>
  The words of the spec, for comparison: the path portion of an absolute URL
  (what follows the authority, up to a query or fragment), and its non-empty segments
  once leading and trailing slashes are trimmed.
\<close>

fun after_scheme :: "string \<Rightarrow> string option" where
  "after_scheme (a # b # c # rest) =
     (if a = CHR '':'' \<and> b = CHR ''/'' \<and> c = CHR ''/'' then Some rest
      else after_scheme (b # c # rest))"
| "after_scheme _ = None"

definition spec_url_path :: "string \<Rightarrow> string" where
  "spec_url_path url =
     (case after_scheme url of
        None \<Rightarrow> []
      | Some rest \<Rightarrow>
          takeWhile (\<lambda>c. c \<noteq> CHR ''?'' \<and> c \<noteq> CHR ''#'')
            (dropWhile (\<lambda>c. c \<noteq> CHR ''/'' \<and> c \<noteq> CHR ''?'' \<and> c \<noteq> CHR ''#'') rest))"

definition spec_nonempty_segments :: "string \<Rightarrow> string list" where
  "spec_nonempty_segments path =
     filter (\<lambda>seg. seg \<noteq> []) (py_split CHR ''/'' (py_strip_char CHR ''/'' path))"

definition spec_is_match_link :: "string \<Rightarrow> bool" where
  "spec_is_match_link url =
     (after_scheme url \<noteq> None \<and> 3 < length (spec_nonempty_segments (spec_url_path url)))"

text \<open>A listing row with an anchor, and a page made of rows.\<close>

definition link_tag :: "string \<Rightarrow> tag" where
  "link_tag href = Tag ''a'' [] (Some href) []"

definition row_tag :: "tag list \<Rightarrow> tag" where
  "row_tag content = Tag ''div'' [''eventRow'', ''flex''] None content"

definition page_tag :: "tag list \<Rightarrow> tag" where
  "page_tag content = Tag ''[document]'' [] None [Tag ''html'' [] None [Tag ''body'' [] None content]]"


section \<open>Persistence: \<open>save_collected_links\<close>\<close>

text \<open>
  A CSV file is the list of the rows handed to \<open>csv.writer.writerow\<close>, each a list of
  fields; the file system maps a path to the file stored there. Opening a path for
  writing creates or replaces the file. Directories and operating-system failures are
  not modelled. \<open>url_path\<close> is \<open>urlparse(base_url).path\<close> and \<open>timestamp\<close> is the
  formatted current time.
\<close>

type_synonym csv_file = "string list list"

type_synonym file_system = "string \<rightharpoonup> csv_file"

text \<open>\<open>s.replace(a, b)\<close> for single characters\<close>

definition py_replace_char :: "char \<Rightarrow> char \<Rightarrow> string \<Rightarrow> string" where
  "py_replace_char a b s = map (\<lambda>c. if c = a then b else c) s"

definition capture_file_path :: "string \<Rightarrow> string \<Rightarrow> string" where
  "capture_file_path url_path timestamp =
     (let stripped = py_strip_char CHR ''/'' url_path;
          base_slug = (if stripped = [] then ''links'' else stripped);
          sanitized_slug = py_replace_char CHR '' '' CHR ''-'' (py_replace_char CHR ''/'' CHR ''_'' base_slug)
      in ''capturelinks/'' @ sanitized_slug @ ''_'' @ timestamp @ ''.csv'')"

definition csv_rows :: "string list \<Rightarrow> csv_file" where
  "csv_rows links = [''match_link''] # map (\<lambda>link. [link]) (py_sorted_set links)"

definition save_collected_links ::
  "string \<Rightarrow> string \<Rightarrow> string list \<Rightarrow> file_system \<Rightarrow> file_system" where
  "save_collected_links url_path timestamp links fs =
     (if links = [] then fs
      else fs(capture_file_path url_path timestamp \<mapsto> csv_rows links))"


section \<open>The season run: \<open>capture_links_selenium\<close>\<close>

record capture_args =
  sport :: string
  leagues :: string
  seasons :: string
  headless :: bool
  max_pages :: "int option"
  browser_user_agent :: "string option"
  browser_locale_timezone :: "string option"
  browser_timezone_id :: "string option"

text \<open>\<open>[item.strip() for item in raw.split(",") if item.strip()]\<close>\<close>

definition split_csv_argument :: "string \<Rightarrow> string list" where
  "split_csv_argument raw =
     map py_strip (filter (\<lambda>item. py_strip item \<noteq> []) (py_split CHR '','' raw))"

text \<open>
  The world a run acts on: the files under the capture directory and the calls made to
  the browser (building the session, loading a listing, ending the session).
\<close>

datatype browser_event = BuildDriver | Get string | Quit

record world =
  files :: file_system
  browser :: "browser_event list"

text \<open>
  What one (league, season) pair meets. \<open>built_url\<close> is the result of the URL builder
  (a module outside the sources at hand), with the URL and its path component;
  \<open>page_load\<close> is the result of \<open>driver.get\<close> followed by \<open>wait_dom_loaded\<close>, neither
  of which is guarded; \<open>page_visit n\<close> is the outcome of the guarded body of the page
  loop for page \<open>n\<close>: an exception raised at some step, or the parsed page source.
  Dismissing the cookie banner and setting the odds format catch everything they raise.
  \<open>list_capacity\<close> is the longest list the interpreter running the script can build.
\<close>

record listing =
  listing_url :: string
  listing_path :: string

record season_obs =
  built_url :: "py_exception + listing"
  page_load :: "py_exception + unit"
  pagination :: pagination_obs
  page_visit :: "int \<Rightarrow> py_exception + tag"
  clock :: string

record environment =
  driver_build :: "py_exception + unit"
  observe :: "string \<Rightarrow> string \<Rightarrow> season_obs"
  iteration_order :: "string list \<Rightarrow> string list"
  site_base :: string
  list_capacity :: nat

text \<open>
  The page loop: \<open>all_links.extend(links)\<close> for a page that is harvested, nothing
  for a page whose body raises (the exception is logged and the loop goes on).
\<close>

fun collect_links ::
  "(string list \<Rightarrow> string list) \<Rightarrow> string \<Rightarrow> (int \<Rightarrow> py_exception + tag) \<Rightarrow> int list
     \<Rightarrow> string list" where
  "collect_links ord base visit [] = []"
| "collect_links ord base visit (n # ns) =
     (case visit n of
        Inl _ \<Rightarrow> collect_links ord base visit ns
      | Inr soup \<Rightarrow>
          extract_match_links_from_html ord base soup @ collect_links ord base visit ns)"

text \<open>\<open>unique_links = list(set(all_links))\<close>, the list handed to \<open>save_collected_links\<close>.\<close>

definition season_links :: "environment \<Rightarrow> capture_args \<Rightarrow> season_obs \<Rightarrow> string list" where
  "season_links env args obs =
     (let pages_to_scrape =
            get_pagination_pages (list_capacity env) (pagination obs) (max_pages args);
          all_links = collect_links (iteration_order env) (site_base env) (page_visit obs)
                        pages_to_scrape
      in py_list_set (iteration_order env) all_links)"

definition capture_season ::
  "environment \<Rightarrow> capture_args \<Rightarrow> season_obs \<Rightarrow> world \<Rightarrow> (py_exception + unit) \<times> world" where
  "capture_season env args obs w =
     (case built_url obs of
        Inl e \<Rightarrow> (Inl e, w)
      | Inr u \<Rightarrow>
          (let w1 = w\<lparr>browser := browser w @ [Get (listing_url u)]\<rparr>
           in case page_load obs of
                Inl e \<Rightarrow> (Inl e, w1)
              | Inr _ \<Rightarrow>
                  (Inr (),
                   w1\<lparr>files := save_collected_links (listing_path u) (clock obs)
                                   (season_links env args obs) (files w1)\<rparr>)))"

text \<open>The two nested \<open>for\<close> loops; an exception that escapes a season ends the run.\<close>

fun run_seasons ::
  "environment \<Rightarrow> capture_args \<Rightarrow> string \<Rightarrow> string list \<Rightarrow> world
     \<Rightarrow> (py_exception + unit) \<times> world" where
  "run_seasons env args league [] w = (Inr (), w)"
| "run_seasons env args league (season # rest) w =
     (case capture_season env args (observe env league season) w of
        (Inl e, w') \<Rightarrow> (Inl e, w')
      | (Inr _, w') \<Rightarrow> run_seasons env args league rest w')"

fun run_leagues ::
  "environment \<Rightarrow> capture_args \<Rightarrow> string list \<Rightarrow> string list \<Rightarrow> world
     \<Rightarrow> (py_exception + unit) \<times> world" where
  "run_leagues env args [] ss w = (Inr (), w)"
| "run_leagues env args (league # rest) ss w =
     (case run_seasons env args league ss w of
        (Inl e, w') \<Rightarrow> (Inl e, w')
      | (Inr _, w') \<Rightarrow> run_leagues env args rest ss w')"

text \<open>
  The run: the two checks, then the session, the loops, and \<open>driver.quit()\<close> in the
  \<open>finally\<close> clause.
\<close>

definition capture_links_selenium ::
  "environment \<Rightarrow> capture_args \<Rightarrow> world \<Rightarrow> (py_exception + unit) \<times> world" where
  "capture_links_selenium env args w =
     (let ls = split_csv_argument (leagues args);
          ss = split_csv_argument (seasons args)
      in if ls = [] then
           (Inl (ValueError ''At least one league must be provided via --leagues.''), w)
         else if ss = [] then
           (Inl (ValueError ''At least one season must be provided via --seasons.''), w)
         else (case driver_build env of
                 Inl e \<Rightarrow> (Inl e, w)
               | Inr _ \<Rightarrow>
                   (case run_leagues env args ls ss (w\<lparr>browser := browser w @ [BuildDriver]\<rparr>) of
                      (r, w') \<Rightarrow> (r, w'\<lparr>browser := browser w' @ [Quit]\<rparr>))))"

text \<open>
  \<open>capture_links\<close> of the Playwright script makes the same two checks first.
  Everything after them (registering the markets, starting the browser, the loops)
  lives in modules outside the sources at hand, and is the parameter \<open>session\<close>.
\<close>

definition capture_links ::
  "(string list \<Rightarrow> string list \<Rightarrow> world \<Rightarrow> (py_exception + unit) \<times> world)
     \<Rightarrow> capture_args \<Rightarrow> world \<Rightarrow> (py_exception + unit) \<times> world" where
  "capture_links session args w =
     (let ls = split_csv_argument (leagues args);
          ss = split_csv_argument (seasons args)
      in if ls = [] then
           (Inl (ValueError ''At least one league must be provided via --leagues.''), w)
         else if ss = [] then
           (Inl (ValueError ''At least one season must be provided via --seasons.''), w)
         else session ls ss w)"


section \<open>Page navigation: \<open>navigate_to_page\<close>\<close>

text \<open>\<open>str(n)\<close> for an integer, as the f-string formats the target page.\<close>

fun digits :: "nat \<Rightarrow> string" where
  "digits n =
     (if n < 10 then [''0123456789'' ! n]
      else digits (n div 10) @ [''0123456789'' ! (n mod 10)])"

declare digits.simps [simp del]

definition py_str :: "int \<Rightarrow> string" where
  "py_str i = (if i < 0 then CHR ''-'' # digits (nat (- i)) else digits (nat i))"

text \<open>
  One pass of the \<open>while\<close> loop sees the anchors that \<open>find_elements\<close> returns (or
  its exception) and the outcome of the script that sets the location hash, should the
  pass run it. The clock is what bounds the loop: the list of passes given to the
  function holds those that begin before \<open>end_time\<close>.
\<close>

record nav_pass =
  found :: "py_exception + web_element list"
  hash_script :: "py_exception + unit"

text \<open>What the function does to the browser, in order.\<close>

datatype nav_event = JsClick | NativeClick | SetHash string | SetHashFailed | Sleep

text \<open>
  The \<open>for\<close> loop over the anchors inside the \<open>try\<close>: the first anchor whose text is
  the target is clicked, by script or, if the script raises, natively, and the function
  returns. An exception from reading a text or from the native click leaves the
  \<open>try\<close> block.
\<close>

datatype scan = Clicked nav_event | NoMatch | Raised

fun scan_anchors :: "int \<Rightarrow> web_element list \<Rightarrow> scan" where
  "scan_anchors target [] = NoMatch"
| "scan_anchors target (a # rest) =
     (case elem_text a of
        Inl _ \<Rightarrow> Raised
      | Inr t \<Rightarrow>
          (let txt = py_strip (or_empty t)
           in if py_isdigit txt \<and> py_int txt = target then
                (case js_click a of
                   Inr _ \<Rightarrow> Clicked JsClick
                 | Inl _ \<Rightarrow>
                     (case native_click a of
                        Inr _ \<Rightarrow> Clicked NativeClick
                      | Inl _ \<Rightarrow> Raised))
              else scan_anchors target rest))"

definition scan_pass :: "int \<Rightarrow> nav_pass \<Rightarrow> scan" where
  "scan_pass target p = (case found p of Inl _ \<Rightarrow> Raised | Inr as \<Rightarrow> scan_anchors target as)"

text \<open>
  The \<open>while\<close> loop, with the flag \<open>attempted_js_hash\<close>. The flag is set only when
  the script has run without raising.
\<close>

fun navigate_loop :: "int \<Rightarrow> bool \<Rightarrow> nav_pass list \<Rightarrow> nav_event list" where
  "navigate_loop target attempted [] = []"
| "navigate_loop target attempted (p # rest) =
     (case scan_pass target p of
        Clicked ev \<Rightarrow> [ev]
      | _ \<Rightarrow>
          (if \<not> attempted then
             (case hash_script p of
                Inr _ \<Rightarrow>
                  SetHash (''#/page/'' @ py_str target) # Sleep # navigate_loop target True rest
              | Inl _ \<Rightarrow> SetHashFailed # Sleep # navigate_loop target False rest)
           else Sleep # navigate_loop target attempted rest))"

definition navigate_to_page :: "int \<Rightarrow> nav_pass list \<Rightarrow> nav_event list" where
  "navigate_to_page target_page passes = navigate_loop target_page False passes"

definition is_set_hash :: "nav_event \<Rightarrow> bool" where
  "is_set_hash ev = (case ev of SetHash _ \<Rightarrow> True | _ \<Rightarrow> False)"

definition is_click :: "nav_event \<Rightarrow> bool" where
  "is_click ev = (ev = JsClick \<or> ev = NativeClick)"

text \<open>A pass in which an anchor with the target's text is found and clicked.\<close>

definition anchor_clicked :: "int \<Rightarrow> nav_pass \<Rightarrow> bool" where
  "anchor_clicked target p = (case scan_pass target p of Clicked _ \<Rightarrow> True | _ \<Rightarrow> False)"

definition pass_with :: "string list \<Rightarrow> nav_pass" where
  "pass_with texts = \<lparr>found = Inr (map anchor texts), hash_script = Inr ()\<rparr>"

text \<open>A pass in which the script that sets the hash raises.\<close>

definition pass_script_raises :: "string list \<Rightarrow> nav_pass" where
  "pass_script_raises texts =
     \<lparr>found = Inr (map anchor texts),
      hash_script = Inl (DriverException ''javascript error'')\<rparr>"


section \<open>Sample pages and runs\<close>

definition arsenal_chelsea :: string where
  "arsenal_chelsea = ''/football/england/premier-league/arsenal-chelsea-x1/''"

definition leeds_fulham :: string where
  "leeds_fulham = ''/football/england/premier-league/leeds-fulham-x2/''"

definition spurs_everton :: string where
  "spurs_everton = ''/football/england/premier-league/spurs-everton-x3/''"

definition first_page :: tag where
  "first_page =
     page_tag [row_tag [link_tag arsenal_chelsea, link_tag ''/football/england/''],
               row_tag [link_tag leeds_fulham],
               link_tag ''/a/b/c/d/'']"

definition third_page :: tag where
  "third_page = page_tag [row_tag [link_tag leeds_fulham, link_tag spurs_everton]]"

definition double_slash_page :: tag where
  "double_slash_page = page_tag [row_tag [link_tag ''/football/england//premier-league/'']]"

definition results_listing :: listing where
  "results_listing =
     \<lparr>listing_url = ''https://www.oddsportal.com/football/england/premier-league/results/'',
      listing_path = ''/football/england/premier-league/results/''\<rparr>"

text \<open>Anchors 1 and 3 are shown; page 2 raises while it is visited.\<close>

definition patchy_season :: season_obs where
  "patchy_season =
     \<lparr>built_url = Inr results_listing,
      page_load = Inr (),
      pagination = \<lparr>live_anchors = Inr [anchor ''3'', anchor ''1''], markup_texts = Inr []\<rparr>,
      page_visit = (\<lambda>n. if n = 1 then Inr first_page
                         else if n = 3 then Inr third_page
                         else Inl (DriverException ''page source unavailable'')),
      clock = ''20240131_101500''\<rparr>"

text \<open>Every page of this season raises while it is visited.\<close>

definition degraded_season :: season_obs where
  "degraded_season =
     \<lparr>built_url = Inr results_listing,
      page_load = Inr (),
      pagination = anchors_1_to_5,
      page_visit = (\<lambda>n. Inl (DriverException ''page source unavailable'')),
      clock = ''20240131_101500''\<rparr>"

definition sample_env :: "season_obs \<Rightarrow> environment" where
  "sample_env obs =
     \<lparr>driver_build = Inr (),
      observe = (\<lambda>league season. obs),
      iteration_order = rev,
      site_base = ''https://www.oddsportal.com'',
      list_capacity = sys_maxsize\<rparr>"

definition sample_args :: "string \<Rightarrow> string \<Rightarrow> capture_args" where
  "sample_args ls ss =
     \<lparr>sport = ''football'', leagues = ls, seasons = ss, headless = True, max_pages = None,
      browser_user_agent = None, browser_locale_timezone = None, browser_timezone_id = None\<rparr>"

definition empty_world :: world where
  "empty_world = \<lparr>files = Map.empty, browser = []\<rparr>"


section \<open>Properties of pagination discovery\<close>

lemma sorted_set_nonempty:
  fixes pages :: "int list"
  assumes "pages \<noteq> []"
  obtains p ps where "py_sorted_set pages = p # ps" and "set (p # ps) = set pages"
proof -
  have "set (py_sorted_set pages) = set pages"
    by (simp add: py_sorted_set_def)
  moreover from this assms have "py_sorted_set pages \<noteq> []"
    by (metis set_empty)
  ultimately show thesis
    using that by (cases "py_sorted_set pages") auto
qed

lemma fold_min_Min: "fold min ps p = Min (set (p # ps))" for p :: int
  by (rule Min.set_eq_fold [symmetric])

lemma fold_max_Max: "fold max ps p = Max (set (p # ps))" for p :: int
  by (rule Max.set_eq_fold [symmetric])

lemma pagination_range_full:
  assumes "pages \<noteq> []"
  shows "pagination_range cap pages limit =
           (if Max (set pages) - Min (set pages) + 1 \<le> int cap
            then (if truthy limit
                  then py_slice_to [Min (set pages)..Max (set pages)] (the limit)
                  else [Min (set pages)..Max (set pages)])
            else [1])"
proof -
  from assms obtain p ps where eq: "py_sorted_set pages = p # ps"
    and st: "set (p # ps) = set pages"
    by (rule sorted_set_nonempty)
  have "fold min ps p = Min (set pages)" "fold max ps p = Max (set pages)"
    using st by (simp_all only: fold_min_Min fold_max_Max)
  with assms eq show ?thesis
    by (simp add: pagination_range_def py_list_range_def Let_def)
qed

lemma get_pagination_pages_full:
  assumes "discovered_pages obs \<noteq> []"
  shows "get_pagination_pages cap obs limit =
           (if length (contiguous_range obs) \<le> cap
            then (if truthy limit
                  then py_slice_to (contiguous_range obs) (the limit)
                  else contiguous_range obs)
            else [1])"
proof -
  have "length (contiguous_range obs) \<le> cap \<longleftrightarrow>
          Max (set (discovered_pages obs)) - Min (set (discovered_pages obs)) + 1 \<le> int cap"
    by (auto simp: contiguous_range_def)
  with assms show ?thesis
    by (simp add: get_pagination_pages_def pagination_range_full contiguous_range_def)
qed

lemma discovered_anchors_1_to_5: "discovered_pages anchors_1_to_5 = [1, 2, 3, 4, 5]"
  by (simp add: anchors_1_to_5_def discovered_pages_def live_indices_def anchor_def
      py_strip_def py_isspace_def py_isdigit_def is_digit_char_def py_int_def or_empty_def)

lemma upto_1_5: "[1..5] = [1, 2, 3, 4, 5]"
  by (simp add: upto.simps)

lemma range_anchors_1_to_5: "contiguous_range anchors_1_to_5 = [1, 2, 3, 4, 5]"
  by (simp add: contiguous_range_def discovered_anchors_1_to_5 upto_1_5)

lemma discovered_far_apart:
  "discovered_pages anchors_far_apart = [1, 10000000000000000000]"
  by (simp add: anchors_far_apart_def discovered_pages_def live_indices_def anchor_def
      py_strip_def py_isspace_def py_isdigit_def is_digit_char_def py_int_def or_empty_def)

lemma length_range_far_apart:
  "length (contiguous_range anchors_far_apart) = 10000000000000000000"
  by (simp add: contiguous_range_def discovered_far_apart)

lemma far_apart_single_page:
  "get_pagination_pages sys_maxsize anchors_far_apart limit = [1]"
proof -
  have "discovered_pages anchors_far_apart \<noteq> []"
    by (simp add: discovered_far_apart)
  moreover have "\<not> length (contiguous_range anchors_far_apart) \<le> sys_maxsize"
    by (simp add: length_range_far_apart sys_maxsize_def)
  ultimately show ?thesis
    using get_pagination_pages_full [of anchors_far_apart sys_maxsize limit] by simp
qed

lemma far_apart_not_range:
  "get_pagination_pages sys_maxsize anchors_far_apart limit \<noteq> contiguous_range anchors_far_apart"
proof
  assume "get_pagination_pages sys_maxsize anchors_far_apart limit
            = contiguous_range anchors_far_apart"
  then have "length (get_pagination_pages sys_maxsize anchors_far_apart limit)
            = length (contiguous_range anchors_far_apart)"
    by (rule arg_cong)
  then show False
    by (simp only: far_apart_single_page length_range_far_apart) simp
qed

text \<open>
  C1, as stated, fails when the discovered indices are further apart than a list is
  long: building \<open>list(range(min_p, max_p + 1))\<close> raises, the outer handler catches it,
  and the result is \<open>[1]\<close>.
\<close>

theorem far_apart_no_limit_counterexample:
  "discovered_pages anchors_far_apart = [1, 10000000000000000000]
   \<and> get_pagination_pages sys_maxsize anchors_far_apart None = [1]
   \<and> get_pagination_pages sys_maxsize anchors_far_apart None
       \<noteq> contiguous_range anchors_far_apart"
  by (intro conjI discovered_far_apart far_apart_single_page far_apart_not_range)

text \<open>
  C1, amended. With no page limit (\<open>max_pages\<close> is \<open>None\<close>), whatever the order,
  gaps or repetitions of the discovered indices, the result is the run of all integers
  from the smallest discovered index to the largest, provided that run is no longer than
  the longest list the interpreter can build; when it is longer, the result is \<open>[1]\<close>.
\<close>

theorem pagination_contiguous_min_to_max:
  assumes "discovered_pages obs \<noteq> []"
  shows "get_pagination_pages cap obs None =
           (if length (contiguous_range obs) \<le> cap then contiguous_range obs else [1])"
  using assms by (simp add: get_pagination_pages_full truthy_def)

theorem pagination_contiguous_min_to_max_witness:
  "discovered_pages
     \<lparr>live_anchors = Inr [anchor ''7'', anchor '' 3 '', stale_anchor, anchor ''3'', anchor ''Next''],
      markup_texts = Inr []\<rparr> = [7, 3, 3]
   \<and> get_pagination_pages sys_maxsize
     \<lparr>live_anchors = Inr [anchor ''7'', anchor '' 3 '', stale_anchor, anchor ''3'', anchor ''Next''],
      markup_texts = Inr []\<rparr> None = [3, 4, 5, 6, 7]"
proof -
  let ?obs = "\<lparr>live_anchors = Inr [anchor ''7'', anchor '' 3 '', stale_anchor, anchor ''3'', anchor ''Next''],
      markup_texts = Inr []\<rparr>"
  have d: "discovered_pages ?obs = [7, 3, 3]"
    by (simp add: discovered_pages_def live_indices_def anchor_def stale_anchor_def
        py_strip_def py_isspace_def py_isdigit_def is_digit_char_def py_int_def or_empty_def)
  then have ne: "discovered_pages ?obs \<noteq> []" by simp
  have r: "contiguous_range ?obs = [3, 4, 5, 6, 7]"
    by (simp add: contiguous_range_def d)
  from pagination_contiguous_min_to_max [OF ne, of sys_maxsize] d show ?thesis
    by (simp add: r sys_maxsize_def)
qed

text \<open>
  C2, as stated, fails for the limit 0: \<open>if max_pages:\<close> treats 0 like no limit, so
  the caller who passes 0 gets the whole range and not its first 0 elements. It also
  fails when the whole range cannot be built: the range is built before it is cut, so
  the limit 2 gives \<open>[1]\<close> and not the first two indices.
\<close>

theorem max_pages_zero_not_first_n_counterexample:
  "discovered_pages anchors_1_to_5 = [1, 2, 3, 4, 5]
   \<and> get_pagination_pages sys_maxsize anchors_1_to_5 (Some 0) = [1, 2, 3, 4, 5]
   \<and> get_pagination_pages sys_maxsize anchors_1_to_5 (Some 0) \<noteq> take 0 [1, 2, 3, 4, 5]
   \<and> discovered_pages anchors_far_apart = [1, 10000000000000000000]
   \<and> get_pagination_pages sys_maxsize anchors_far_apart (Some 2) = [1]
   \<and> get_pagination_pages sys_maxsize anchors_far_apart (Some 2) \<noteq> [1, 2]"
proof -
  have "get_pagination_pages sys_maxsize anchors_1_to_5 (Some 0) = [1, 2, 3, 4, 5]"
    by (simp add: discovered_anchors_1_to_5 get_pagination_pages_full range_anchors_1_to_5
        truthy_def sys_maxsize_def)
  moreover have "get_pagination_pages sys_maxsize anchors_far_apart (Some 2) \<noteq> [1, 2]"
    by (simp add: far_apart_single_page)
  ultimately show ?thesis
    by (simp add: discovered_anchors_1_to_5 discovered_far_apart far_apart_single_page)
qed

text \<open>
  C2, amended. For a non-empty list of discovered indices and a positive limit \<open>n\<close>,
  the result is the first \<open>n\<close> elements of the run from the smallest to the largest
  discovered index, in that order (the whole run when it has fewer than \<open>n\<close>),
  provided that run is no longer than the longest list the interpreter can build; when
  it is longer, the result is \<open>[1]\<close>.
\<close>

theorem max_pages_positive_first_n:
  assumes "discovered_pages obs \<noteq> []" and "0 < n"
  shows "get_pagination_pages cap obs (Some n) =
           (if length (contiguous_range obs) \<le> cap
            then take (nat n) (contiguous_range obs) else [1])"
  using assms
  by (simp add: get_pagination_pages_full truthy_def py_slice_to_def)

theorem max_pages_positive_first_n_witness:
  "discovered_pages anchors_1_to_5 \<noteq> [] \<and> (0::int) < 3
   \<and> get_pagination_pages sys_maxsize anchors_1_to_5 (Some 3) = [1, 2, 3]"
proof -
  have ne: "discovered_pages anchors_1_to_5 \<noteq> []"
    by (simp add: discovered_anchors_1_to_5)
  have pos: "(0::int) < 3" by simp
  from max_pages_positive_first_n [OF ne pos, of sys_maxsize] show ?thesis
    by (simp add: discovered_anchors_1_to_5 range_anchors_1_to_5 sys_maxsize_def)
qed

text \<open>
  C7. When the live query gives no numeric index (it found nothing numeric, or it
  raised) and the parse of the page markup gives none either, the result is \<open>[1]\<close>,
  whatever the page limit.
\<close>

theorem no_anchors_single_page:
  assumes "live_indices obs = []" and "markup_indices obs = []"
  shows "get_pagination_pages cap obs limit = [1]"
  using assms by (simp add: get_pagination_pages_def discovered_pages_def pagination_range_def)

theorem no_anchors_single_page_witness:
  "live_indices \<lparr>live_anchors = Inl (DriverException ''no such window''),
                  markup_texts = Inr [''Next'', '' '']\<rparr> = []
   \<and> markup_indices \<lparr>live_anchors = Inl (DriverException ''no such window''),
                  markup_texts = Inr [''Next'', '' '']\<rparr> = []
   \<and> get_pagination_pages sys_maxsize \<lparr>live_anchors = Inl (DriverException ''no such window''),
                  markup_texts = Inr [''Next'', '' '']\<rparr> (Some 4) = [1]"
proof -
  let ?obs = "\<lparr>live_anchors = Inl (DriverException ''no such window''),
                  markup_texts = Inr [''Next'', '' '']\<rparr>"
  have l: "live_indices ?obs = []"
    by (simp add: live_indices_def)
  have m: "markup_indices ?obs = []"
    by (simp add: markup_indices_def py_strip_def py_isspace_def py_isdigit_def
        is_digit_char_def)
  from no_anchors_single_page [OF l m, of sys_maxsize "Some 4"] l m show ?thesis
    by simp
qed

text \<open>
  C10, as stated, fails when the discovered indices are further apart than a list is
  long: with the limit 0 the result is \<open>[1]\<close>, not the whole run.
\<close>

theorem far_apart_zero_limit_counterexample:
  "discovered_pages anchors_far_apart = [1, 10000000000000000000]
   \<and> get_pagination_pages sys_maxsize anchors_far_apart (Some 0) = [1]
   \<and> get_pagination_pages sys_maxsize anchors_far_apart (Some 0)
       \<noteq> contiguous_range anchors_far_apart"
  by (intro conjI discovered_far_apart far_apart_single_page far_apart_not_range)

text \<open>
  C10, amended. Provided the run from the smallest to the largest discovered index is
  no longer than the longest list the interpreter can build, the slice is taken exactly
  when \<open>max_pages\<close> is an integer other than zero: for \<open>None\<close> and for 0 the result is
  the whole run, neither empty nor shortened. When the run is longer than that, the
  result is \<open>[1]\<close> for every \<open>max_pages\<close>.
\<close>

theorem falsy_max_pages_full_range:
  assumes "discovered_pages obs \<noteq> []"
  shows "get_pagination_pages cap obs limit =
           (if length (contiguous_range obs) \<le> cap
            then (if limit = None \<or> limit = Some 0
                  then contiguous_range obs
                  else py_slice_to (contiguous_range obs) (the limit))
            else [1])"
  using assms
  by (cases limit) (simp_all add: get_pagination_pages_full truthy_def)

theorem falsy_max_pages_full_range_witness:
  "discovered_pages anchors_1_to_5 \<noteq> []
   \<and> get_pagination_pages sys_maxsize anchors_1_to_5 (Some 0) = [1, 2, 3, 4, 5]
   \<and> get_pagination_pages sys_maxsize anchors_1_to_5 None = [1, 2, 3, 4, 5]
   \<and> get_pagination_pages sys_maxsize anchors_1_to_5 (Some 2) = [1, 2]"
proof -
  have ne: "discovered_pages anchors_1_to_5 \<noteq> []"
    by (simp add: discovered_anchors_1_to_5)
  from falsy_max_pages_full_range [OF ne, of sys_maxsize "Some 0"]
       falsy_max_pages_full_range [OF ne, of sys_maxsize None]
       falsy_max_pages_full_range [OF ne, of sys_maxsize "Some 2"]
  show ?thesis
    by (simp add: discovered_anchors_1_to_5 range_anchors_1_to_5 py_slice_to_def
        sys_maxsize_def)
qed


section \<open>Properties of link harvesting\<close>

lemma set_py_list_set: "is_set_order ord \<Longrightarrow> set (py_list_set ord xs) = set xs"
  by (simp add: is_set_order_def py_list_set_def)

lemma distinct_py_list_set: "is_set_order ord \<Longrightarrow> distinct (py_list_set ord xs)"
  by (simp add: is_set_order_def py_list_set_def)

lemma is_set_order_rev: "is_set_order rev"
  by (simp add: is_set_order_def)

lemma row_hrefs:
  "set (map (\<lambda>a. or_empty (tag_href a)) (anchors_with_href row)) =
     {h. \<exists>a \<in> set (anchors_with_href row). tag_href a = Some h}"
proof (intro set_eqI iffI)
  fix h
  assume "h \<in> set (map (\<lambda>a. or_empty (tag_href a)) (anchors_with_href row))"
  then obtain a where a: "a \<in> set (anchors_with_href row)" and h: "h = or_empty (tag_href a)"
    by auto
  from a have "tag_href a \<noteq> None"
    by (simp add: anchors_with_href_def)
  with h have "tag_href a = Some h"
    by (auto simp: or_empty_def)
  with a show "h \<in> {h. \<exists>a \<in> set (anchors_with_href row). tag_href a = Some h}"
    by blast
next
  fix h
  assume "h \<in> {h. \<exists>a \<in> set (anchors_with_href row). tag_href a = Some h}"
  then obtain a where a: "a \<in> set (anchors_with_href row)" and "tag_href a = Some h"
    by blast
  then have "or_empty (tag_href a) = h"
    by (simp add: or_empty_def)
  with a show "h \<in> set (map (\<lambda>a. or_empty (tag_href a)) (anchors_with_href row))"
    by force
qed

lemma set_match_hrefs:
  "set (match_hrefs soup) =
     {h. \<exists>row \<in> set (event_rows soup). \<exists>a \<in> set (anchors_with_href row).
           tag_href a = Some h \<and> is_match_href h}"
  unfolding match_hrefs_def set_concat set_map image_image set_filter
  using row_hrefs by auto

lemmas text_defs =
  py_strip_def py_isspace_def py_isdigit_def is_digit_char_def py_int_def or_empty_def

lemmas harvest_defs =
  extract_match_links_from_html_def py_list_set_def match_hrefs_def event_rows_def
  anchors_with_href_def page_tag_def row_tag_def link_tag_def starts_with_def
  is_match_href_def href_segments_def py_strip_char_def or_empty_def

lemma first_page_links:
  "extract_match_links_from_html rev ''https://www.oddsportal.com'' first_page =
     [''https://www.oddsportal.com/football/england/premier-league/leeds-fulham-x2/'',
      ''https://www.oddsportal.com/football/england/premier-league/arsenal-chelsea-x1/'']"
  by (simp add: first_page_def arsenal_chelsea_def leeds_fulham_def harvest_defs)

lemma third_page_links:
  "extract_match_links_from_html rev ''https://www.oddsportal.com'' third_page =
     [''https://www.oddsportal.com/football/england/premier-league/spurs-everton-x3/'',
      ''https://www.oddsportal.com/football/england/premier-league/leeds-fulham-x2/'']"
  by (simp add: third_page_def spurs_everton_def leeds_fulham_def harvest_defs)

text \<open>
  C4, as stated, fails: the test counts the pieces between slashes, empty ones
  included. An href with a doubled slash passes with three non-empty segments only.
\<close>

theorem double_slash_link_counterexample:
  "extract_match_links_from_html rev ''https://www.oddsportal.com'' double_slash_page =
     [''https://www.oddsportal.com/football/england//premier-league/'']
   \<and> spec_nonempty_segments
        (spec_url_path ''https://www.oddsportal.com/football/england//premier-league/'') =
       [''football'', ''england'', ''premier-league'']
   \<and> \<not> spec_is_match_link ''https://www.oddsportal.com/football/england//premier-league/''"
  by (simp add: double_slash_page_def harvest_defs spec_is_match_link_def spec_url_path_def
      spec_nonempty_segments_def)

text \<open>
  C4, amended. For every parsed page, the links returned by
  \<open>extract_match_links_from_html\<close> are exactly the base URL followed by the href of an
  anchor inside an event row, for those hrefs that, with leading and trailing slashes
  trimmed, split at the slash into more than three pieces, empty pieces counted.
\<close>

theorem harvested_links_split_segments:
  assumes "is_set_order ord"
  shows "L \<in> set (extract_match_links_from_html ord base soup) \<longleftrightarrow>
           (\<exists>row \<in> set (event_rows soup). \<exists>a \<in> set (anchors_with_href row). \<exists>h.
              tag_href a = Some h \<and> L = base @ h
              \<and> 3 < length (py_split CHR ''/'' (py_strip_char CHR ''/'' h)))"
  using assms
  by (auto simp: extract_match_links_from_html_def set_py_list_set set_match_hrefs
      is_match_href_def href_segments_def)

theorem harvested_links_split_segments_witness:
  "is_set_order rev
   \<and> ''https://www.oddsportal.com'' @ arsenal_chelsea
       \<in> set (extract_match_links_from_html rev ''https://www.oddsportal.com'' first_page)
   \<and> (\<exists>row \<in> set (event_rows first_page). \<exists>a \<in> set (anchors_with_href row). \<exists>h.
          tag_href a = Some h
          \<and> ''https://www.oddsportal.com'' @ arsenal_chelsea = ''https://www.oddsportal.com'' @ h
          \<and> 3 < length (py_split CHR ''/'' (py_strip_char CHR ''/'' h)))"
proof -
  have mem: "''https://www.oddsportal.com'' @ arsenal_chelsea
       \<in> set (extract_match_links_from_html rev ''https://www.oddsportal.com'' first_page)"
    by (simp add: first_page_links arsenal_chelsea_def)
  from harvested_links_split_segments [OF is_set_order_rev, THEN iffD1, OF mem]
    is_set_order_rev mem
  show ?thesis by blast
qed


section \<open>Properties of persistence\<close>

lemma py_sorted_set_props:
  "sorted_wrt (<) (py_sorted_set xs)" "set (py_sorted_set xs) = set xs"
  by (simp_all add: py_sorted_set_def strict_sorted_iff)

text \<open>
  C5. For a non-empty list of links, the file written by \<open>save_collected_links\<close> is
  the header row \<open>match_link\<close> followed by one row per link, the links of the input in
  strictly ascending lexicographic order: sorted, each once.
\<close>

theorem saved_file_header_sorted_unique:
  assumes "links \<noteq> []"
  shows "\<exists>rows. save_collected_links url_path timestamp links fs
                  (capture_file_path url_path timestamp)
                = Some ([''match_link''] # map (\<lambda>link. [link]) rows)
              \<and> sorted_wrt (<) rows \<and> set rows = set links"
  using assms
  by (auto simp: save_collected_links_def csv_rows_def py_sorted_set_props)

theorem saved_file_header_sorted_unique_witness:
  "[''https://x/b'', ''https://x/a'', ''https://x/b''] \<noteq> []
   \<and> (\<exists>rows. save_collected_links ''/football/england/'' ''20240131_101500''
                 [''https://x/b'', ''https://x/a'', ''https://x/b''] Map.empty
                 (capture_file_path ''/football/england/'' ''20240131_101500'')
               = Some ([''match_link''] # map (\<lambda>link. [link]) rows)
             \<and> sorted_wrt (<) rows
             \<and> set rows = set [''https://x/b'', ''https://x/a'', ''https://x/b''])
   \<and> save_collected_links ''/football/england/'' ''20240131_101500''
        [''https://x/b'', ''https://x/a'', ''https://x/b''] Map.empty
        ''capturelinks/football_england_20240131_101500.csv''
      = Some [[''match_link''], [''https://x/a''], [''https://x/b'']]"
proof -
  have ne: "[''https://x/b'', ''https://x/a'', ''https://x/b''] \<noteq> []"
    by simp
  have "save_collected_links ''/football/england/'' ''20240131_101500''
        [''https://x/b'', ''https://x/a'', ''https://x/b''] Map.empty
        ''capturelinks/football_england_20240131_101500.csv''
      = Some [[''match_link''], [''https://x/a''], [''https://x/b'']]"
    by (simp add: save_collected_links_def capture_file_path_def csv_rows_def
        py_sorted_set_def py_strip_char_def py_replace_char_def)
  with ne saved_file_header_sorted_unique
         [OF ne, of "''/football/england/''" "''20240131_101500''" Map.empty]
  show ?thesis by blast
qed


section \<open>Properties of the season run\<close>

lemma set_collect_links:
  "set (collect_links ord base visit ns) =
     (\<Union>n \<in> set ns. case visit n of
                        Inl _ \<Rightarrow> {}
                      | Inr soup \<Rightarrow> set (extract_match_links_from_html ord base soup))"
  by (induction ns) (auto split: sum.splits)

lemma patchy_pages:
  "get_pagination_pages sys_maxsize (pagination patchy_season) None = [1, 2, 3]"
  by (simp add: patchy_season_def get_pagination_pages_def pagination_range_def
      discovered_pages_def live_indices_def anchor_def text_defs py_sorted_set_def truthy_def
      py_list_range_def sys_maxsize_def upto.simps)

lemma patchy_links:
  "season_links (sample_env patchy_season) (sample_args ls ss) patchy_season =
     [''https://www.oddsportal.com/football/england/premier-league/leeds-fulham-x2/'',
      ''https://www.oddsportal.com/football/england/premier-league/spurs-everton-x3/'',
      ''https://www.oddsportal.com/football/england/premier-league/arsenal-chelsea-x1/'']"
  by (simp add: season_links_def sample_env_def sample_args_def patchy_pages)
     (simp add: patchy_season_def first_page_links third_page_links py_list_set_def)

lemma degraded_links:
  "season_links (sample_env degraded_season) (sample_args ls ss) degraded_season = []"
  by (simp add: season_links_def sample_env_def sample_args_def)
     (simp add: degraded_season_def py_list_set_def get_pagination_pages_def
        pagination_range_def discovered_anchors_1_to_5 py_sorted_set_def truthy_def
        py_list_range_def sys_maxsize_def upto_1_5)

lemma sample_split:
  "split_csv_argument ''england-premier-league'' = [''england-premier-league'']"
  "split_csv_argument ''2020-2021'' = [''2020-2021'']"
  by (simp_all add: split_csv_argument_def text_defs)

lemma degraded_season_run:
  "capture_season (sample_env degraded_season) (sample_args ls ss) degraded_season w =
     (Inr (), w\<lparr>browser := browser w @ [Get (listing_url results_listing)]\<rparr>)"
proof -
  have "built_url degraded_season = Inr results_listing" "page_load degraded_season = Inr ()"
    by (simp_all add: degraded_season_def)
  then show ?thesis
    by (simp add: capture_season_def Let_def degraded_links save_collected_links_def)
qed

lemma degraded_run:
  "capture_links_selenium (sample_env degraded_season)
     (sample_args ''england-premier-league'' ''2020-2021'') empty_world
   = (Inr (), \<lparr>files = Map.empty,
               browser = [BuildDriver, Get (listing_url results_listing), Quit]\<rparr>)"
proof -
  have "run_leagues (sample_env degraded_season)
          (sample_args ''england-premier-league'' ''2020-2021'')
          [''england-premier-league''] [''2020-2021''] w
        = (Inr (), w\<lparr>browser := browser w @ [Get (listing_url results_listing)]\<rparr>)" for w
    using degraded_season_run [of "''england-premier-league''" "''2020-2021''" w]
    by (simp add: sample_env_def)
  then show ?thesis
    by (simp add: capture_links_selenium_def Let_def sample_split sample_args_def
        sample_env_def empty_world_def)
qed

text \<open>
  C3, as stated, fails: \<open>save_collected_links\<close> returns at once when it is given no
  links. A run in which every page raises ends normally, all pages processed, and leaves
  no file behind.
\<close>

theorem no_file_when_every_page_degraded_counterexample:
  "fst (capture_links_selenium (sample_env degraded_season)
          (sample_args ''england-premier-league'' ''2020-2021'') empty_world) = Inr ()
   \<and> browser (snd (capture_links_selenium (sample_env degraded_season)
          (sample_args ''england-premier-league'' ''2020-2021'') empty_world))
       = [BuildDriver,
          Get ''https://www.oddsportal.com/football/england/premier-league/results/'', Quit]
   \<and> files (snd (capture_links_selenium (sample_env degraded_season)
          (sample_args ''england-premier-league'' ''2020-2021'') empty_world)) = Map.empty"
  by (simp add: degraded_run results_listing_def)

text \<open>
  C3, amended. For every season whose listing is built and loaded, once all pages
  are processed the season ends normally whatever happened on the pages, and the output
  file is written with the collected links exactly when at least one link was
  collected; when none was, the files are left as they were.
\<close>

theorem season_file_written_iff_links:
  assumes "built_url obs = Inr u" and "page_load obs = Inr ok"
  shows "fst (capture_season env args obs w) = Inr ()
       \<and> files (snd (capture_season env args obs w)) =
           (if season_links env args obs = [] then files w
            else (files w)(capture_file_path (listing_path u) (clock obs)
                             \<mapsto> csv_rows (season_links env args obs)))"
  using assms
  by (simp add: capture_season_def save_collected_links_def Let_def)

theorem season_file_written_iff_links_witness:
  "built_url patchy_season = Inr results_listing \<and> page_load patchy_season = Inr ()
   \<and> page_visit patchy_season 2 = Inl (DriverException ''page source unavailable'')
   \<and> fst (capture_season (sample_env patchy_season) (sample_args ''a'' ''b'') patchy_season
            empty_world) = Inr ()
   \<and> files (snd (capture_season (sample_env patchy_season) (sample_args ''a'' ''b'')
                   patchy_season empty_world))
        ''capturelinks/football_england_premier-league_results_20240131_101500.csv''
      = Some [[''match_link''],
              [''https://www.oddsportal.com/football/england/premier-league/arsenal-chelsea-x1/''],
              [''https://www.oddsportal.com/football/england/premier-league/leeds-fulham-x2/''],
              [''https://www.oddsportal.com/football/england/premier-league/spurs-everton-x3/'']]"
proof -
  have b: "built_url patchy_season = Inr results_listing"
    and l: "page_load patchy_season = Inr ()"
    and v: "page_visit patchy_season 2 = Inl (DriverException ''page source unavailable'')"
    and c: "clock patchy_season = ''20240131_101500''"
    by (simp_all add: patchy_season_def)
  have path: "capture_file_path (listing_path results_listing) ''20240131_101500'' =
      ''capturelinks/football_england_premier-league_results_20240131_101500.csv''"
    by (simp add: capture_file_path_def results_listing_def py_strip_char_def
        py_replace_char_def)
  from season_file_written_iff_links
         [OF b l, of "sample_env patchy_season" "sample_args ''a'' ''b''" empty_world]
  show ?thesis
    by (simp add: b l v c path patchy_links csv_rows_def py_sorted_set_def)
qed

text \<open>
  C6. The list handed to \<open>save_collected_links\<close> at the end of a season holds
  exactly the links harvested on the pages of the season (a page whose visit raised
  contributes none), each of them once.
\<close>

theorem season_links_union:
  assumes "is_set_order (iteration_order env)"
  shows "set (season_links env args obs) =
           (\<Union>n \<in> set (get_pagination_pages (list_capacity env) (pagination obs)
                         (max_pages args)).
              case page_visit obs n of
                Inl _ \<Rightarrow> {}
              | Inr soup \<Rightarrow>
                  set (extract_match_links_from_html (iteration_order env) (site_base env) soup))
         \<and> distinct (season_links env args obs)"
  using assms
  by (simp add: season_links_def set_py_list_set distinct_py_list_set set_collect_links)

theorem season_links_union_witness:
  "is_set_order (iteration_order (sample_env patchy_season))
   \<and> set (season_links (sample_env patchy_season) (sample_args ''a'' ''b'') patchy_season) =
       set (extract_match_links_from_html rev ''https://www.oddsportal.com'' first_page)
       \<union> set (extract_match_links_from_html rev ''https://www.oddsportal.com'' third_page)
   \<and> length (season_links (sample_env patchy_season) (sample_args ''a'' ''b'') patchy_season) = 3
   \<and> distinct (season_links (sample_env patchy_season) (sample_args ''a'' ''b'') patchy_season)"
proof -
  have ord: "is_set_order (iteration_order (sample_env patchy_season))"
    by (simp add: sample_env_def is_set_order_rev)
  have pages: "get_pagination_pages (list_capacity (sample_env patchy_season))
                 (pagination patchy_season) (max_pages (sample_args ''a'' ''b'')) = [1, 2, 3]"
    by (simp add: sample_args_def sample_env_def patchy_pages)
  have visits: "page_visit patchy_season 1 = Inr first_page"
    "page_visit patchy_season 2 = Inl (DriverException ''page source unavailable'')"
    "page_visit patchy_season 3 = Inr third_page"
    by (simp_all add: patchy_season_def)
  have env: "iteration_order (sample_env patchy_season) = rev"
    "site_base (sample_env patchy_season) = ''https://www.oddsportal.com''"
    by (simp_all add: sample_env_def)
  from season_links_union [OF ord, of "sample_args ''a'' ''b''" patchy_season]
  have "set (season_links (sample_env patchy_season) (sample_args ''a'' ''b'') patchy_season) =
       set (extract_match_links_from_html rev ''https://www.oddsportal.com'' first_page)
       \<union> set (extract_match_links_from_html rev ''https://www.oddsportal.com'' third_page)"
    and "distinct (season_links (sample_env patchy_season) (sample_args ''a'' ''b'') patchy_season)"
    by (simp_all only: pages visits env list.set UN_insert UN_empty sum.case Un_empty_left
        Un_empty_right)
  with ord show ?thesis
    by (simp add: patchy_links)
qed

text \<open>
  C9. When the league list or the season list is empty once the argument is split
  at commas and blank items are dropped, both capture functions raise \<open>ValueError\<close>
  and leave the world as it was: no browser session is built, no page is loaded, no
  file is written.
\<close>

theorem empty_request_raises_before_browser:
  assumes "split_csv_argument (leagues args) = [] \<or> split_csv_argument (seasons args) = []"
  shows "(\<exists>msg. capture_links_selenium env args w = (Inl (ValueError msg), w))
       \<and> (\<exists>msg. capture_links session args w = (Inl (ValueError msg), w))"
  using assms
  by (auto simp: capture_links_selenium_def capture_links_def Let_def)

theorem empty_request_raises_before_browser_witness:
  "(split_csv_argument (leagues (sample_args '' , ,'' ''2020-2021'')) = []
      \<or> split_csv_argument (seasons (sample_args '' , ,'' ''2020-2021'')) = [])
   \<and> (\<exists>msg. capture_links_selenium (sample_env patchy_season)
               (sample_args '' , ,'' ''2020-2021'') empty_world
             = (Inl (ValueError msg), empty_world))
   \<and> (\<exists>msg. capture_links (\<lambda>ls ss w. (Inr (), w\<lparr>browser := [BuildDriver]\<rparr>))
               (sample_args '' , ,'' ''2020-2021'') empty_world
             = (Inl (ValueError msg), empty_world))"
proof -
  have blank: "split_csv_argument (leagues (sample_args '' , ,'' ''2020-2021'')) = []
      \<or> split_csv_argument (seasons (sample_args '' , ,'' ''2020-2021'')) = []"
    by (simp add: sample_args_def split_csv_argument_def py_strip_def py_isspace_def)
  from empty_request_raises_before_browser [OF blank] blank show ?thesis
    by blast
qed


section \<open>Properties of page navigation\<close>

lemma scan_anchors_click: "scan_anchors t as = Clicked ev \<Longrightarrow> is_click ev"
  by (induction as) (auto simp: is_click_def Let_def split: sum.splits if_splits)

lemma scan_pass_click: "scan_pass t p = Clicked ev \<Longrightarrow> is_click ev"
  by (auto simp: scan_pass_def split: sum.splits dest: scan_anchors_click)

lemma click_not_set_hash: "is_click ev \<Longrightarrow> \<not> is_set_hash ev"
  by (auto simp: is_click_def is_set_hash_def)

lemma is_set_hash_simps:
  "is_set_hash (SetHash s)" "\<not> is_set_hash Sleep" "\<not> is_set_hash SetHashFailed"
  by (simp_all add: is_set_hash_def)

lemma is_click_simps:
  "\<not> is_click (SetHash s)" "\<not> is_click Sleep" "\<not> is_click SetHashFailed"
  by (simp_all add: is_click_def)

lemma no_set_hash_once_attempted:
  "filter is_set_hash (navigate_loop t True ps) = []"
proof (induction ps)
  case Nil
  show ?case by simp
next
  case (Cons p ps)
  show ?case
  proof (cases "scan_pass t p")
    case (Clicked ev)
    then have "\<not> is_set_hash ev"
      by (blast dest: scan_pass_click click_not_set_hash)
    with Clicked show ?thesis by simp
  next
    case NoMatch
    with Cons show ?thesis by (simp add: is_set_hash_simps)
  next
    case Raised
    with Cons show ?thesis by (simp add: is_set_hash_simps)
  qed
qed

lemma set_hash_bound:
  "length (filter is_set_hash (navigate_loop t False ps)) \<le> 1"
proof (induction ps)
  case Nil
  show ?case by simp
next
  case (Cons p ps)
  show ?case
  proof (cases "scan_pass t p")
    case (Clicked ev)
    then show ?thesis by simp
  next
    case NoMatch
    with Cons show ?thesis
      by (cases "hash_script p") (simp_all add: is_set_hash_simps no_set_hash_once_attempted)
  next
    case Raised
    with Cons show ?thesis
      by (cases "hash_script p") (simp_all add: is_set_hash_simps no_set_hash_once_attempted)
  qed
qed

lemma click_only_last:
  "list_all (\<lambda>ev. \<not> is_click ev) (butlast (navigate_loop t att ps))"
proof (induction ps arbitrary: att)
  case Nil
  show ?case by simp
next
  case (Cons p ps)
  show ?case
    by (cases "scan_pass t p"; cases "hash_script p"; cases att)
       (simp_all add: Cons is_click_simps)
qed

lemma navigate_loop_append:
  assumes "\<forall>q \<in> set before. \<not> anchor_clicked t q"
  shows "navigate_loop t att (before @ rest) =
           navigate_loop t att before
             @ navigate_loop t (att \<or> (\<exists>q \<in> set before. \<exists>u. hash_script q = Inr u)) rest"
  using assms
proof (induction before arbitrary: att)
  case Nil
  then show ?case by simp
next
  case (Cons p ps)
  then show ?case
    by (cases "scan_pass t p"; cases "hash_script p"; cases att)
       (simp_all add: anchor_clicked_def)
qed

lemma set_hash_needs_miss:
  "SetHash s \<in> set (navigate_loop t att ps) \<Longrightarrow> \<exists>p \<in> set ps. \<not> anchor_clicked t p"
proof (induction ps arbitrary: att)
  case Nil
  then show ?case by simp
next
  case (Cons p ps)
  show ?case
  proof (cases "scan_pass t p")
    case (Clicked ev)
    with Cons.prems have "ev = SetHash s" by simp
    moreover from Clicked have "is_click ev" by (rule scan_pass_click)
    ultimately show ?thesis by (simp add: is_click_def)
  next
    case NoMatch
    then show ?thesis by (simp add: anchor_clicked_def)
  next
    case Raised
    then show ?thesis by (simp add: anchor_clicked_def)
  qed
qed

lemma set_hash_fragment:
  "SetHash s \<in> set (navigate_loop t att ps) \<Longrightarrow> s = ''#/page/'' @ py_str t"
proof (induction ps arbitrary: att)
  case Nil
  then show ?case by simp
next
  case (Cons p ps)
  show ?case
  proof (cases "scan_pass t p")
    case (Clicked ev)
    with Cons.prems have "ev = SetHash s" by simp
    moreover from Clicked have "is_click ev" by (rule scan_pass_click)
    ultimately show ?thesis by (simp add: is_click_def)
  next
    case NoMatch
    with Cons show ?thesis
      by (cases "hash_script p"; cases att) auto
  next
    case Raised
    with Cons show ?thesis
      by (cases "hash_script p"; cases att) auto
  qed
qed

lemma attempted_tail:
  "list_all (\<lambda>ev. ev = Sleep \<or> is_click ev) (navigate_loop t True ps)"
proof (induction ps)
  case Nil
  show ?case by simp
next
  case (Cons p ps)
  then show ?case
    by (cases "scan_pass t p") (auto dest: scan_pass_click)
qed

lemma failed_prefix:
  assumes "\<forall>q \<in> set fails. \<not> anchor_clicked t q \<and> (\<exists>e. hash_script q = Inl e)"
  shows "navigate_loop t False (fails @ rest) =
           concat (map (\<lambda>q. [SetHashFailed, Sleep]) fails) @ navigate_loop t False rest"
  using assms
proof (induction fails)
  case Nil
  show ?case by simp
next
  case (Cons p ps)
  then show ?case
    by (cases "scan_pass t p") (auto simp: anchor_clicked_def)
qed

lemma first_success:
  assumes "\<not> anchor_clicked t p" and "hash_script p = Inr u"
  shows "navigate_loop t False (p # rest) =
           SetHash (''#/page/'' @ py_str t) # Sleep # navigate_loop t True rest"
  using assms by (cases "scan_pass t p") (simp_all add: anchor_clicked_def)

lemmas nav_defs =
  navigate_to_page_def anchor_clicked_def scan_pass_def pass_with_def anchor_def text_defs
  py_str_def digits.simps

text \<open>
  C8, as stated, fails: the hash is set in the first pass that clicks no anchor,
  while the window is still open, and a later pass can still find the anchor and click
  it. Here page 2 is reached by a click after the fallback has been used.
\<close>

theorem fallback_before_click_counterexample:
  "navigate_to_page 2 [pass_with [''1''], pass_with [''1'', ''2'']] =
     [SetHash ''#/page/2'', Sleep, JsClick]
   \<and> anchor_clicked 2 (pass_with [''1'', ''2''])"
  by (simp add: nav_defs)

text \<open>
  C8, amended. In one call of \<open>navigate_to_page\<close> the location hash is set at most
  once, always to \<open>#/page/<target>\<close>, and only if some pass of the loop clicked no
  matching anchor. It is set in the first pass that clicks no anchor, while the window
  is still open (after passes in which the script raised, which is then tried again);
  from then on the call only sleeps or clicks. A click is the last thing the call does:
  in the first pass that finds a matching anchor and clicks it, the function returns at
  once, with no fallback in that pass or after it, and what it did before is what it
  does when the window closes just before that pass.
\<close>

theorem navigate_fallback_at_most_once:
  "length (filter is_set_hash (navigate_to_page t ps)) \<le> 1
   \<and> list_all (\<lambda>ev. \<not> is_click ev) (butlast (navigate_to_page t ps))
   \<and> (\<forall>s. SetHash s \<in> set (navigate_to_page t ps) \<longrightarrow> (\<exists>p \<in> set ps. \<not> anchor_clicked t p))
   \<and> (\<forall>before p rest ev.
         ps = before @ p # rest \<and> (\<forall>q \<in> set before. \<not> anchor_clicked t q)
           \<and> scan_pass t p = Clicked ev
         \<longrightarrow> is_click ev \<and> navigate_to_page t ps = navigate_to_page t before @ [ev])
   \<and> (\<forall>s. SetHash s \<in> set (navigate_to_page t ps) \<longrightarrow> s = ''#/page/'' @ py_str t)
   \<and> (\<forall>fails p rest.
         ps = fails @ p # rest
           \<and> (\<forall>q \<in> set fails. \<not> anchor_clicked t q \<and> (\<exists>e. hash_script q = Inl e))
           \<and> \<not> anchor_clicked t p \<and> (\<exists>u. hash_script p = Inr u)
         \<longrightarrow> navigate_to_page t ps =
               concat (map (\<lambda>q. [SetHashFailed, Sleep]) fails)
                 @ SetHash (''#/page/'' @ py_str t) # Sleep # navigate_loop t True rest
             \<and> list_all (\<lambda>ev. ev = Sleep \<or> is_click ev) (navigate_loop t True rest))"
proof (intro conjI allI impI)
  show "length (filter is_set_hash (navigate_to_page t ps)) \<le> 1"
    by (simp only: navigate_to_page_def set_hash_bound)
  show "list_all (\<lambda>ev. \<not> is_click ev) (butlast (navigate_to_page t ps))"
    by (simp only: navigate_to_page_def click_only_last)
next
  fix s assume "SetHash s \<in> set (navigate_to_page t ps)"
  then show "\<exists>p \<in> set ps. \<not> anchor_clicked t p"
    unfolding navigate_to_page_def by (rule set_hash_needs_miss)
next
  fix before p rest ev
  assume a: "ps = before @ p # rest \<and> (\<forall>q \<in> set before. \<not> anchor_clicked t q)
           \<and> scan_pass t p = Clicked ev"
  then show "is_click ev" by (auto dest: scan_pass_click)
  from a show "navigate_to_page t ps = navigate_to_page t before @ [ev]"
    by (simp add: navigate_to_page_def navigate_loop_append)
next
  fix s assume "SetHash s \<in> set (navigate_to_page t ps)"
  then show "s = ''#/page/'' @ py_str t"
    unfolding navigate_to_page_def by (rule set_hash_fragment)
next
  fix fails p rest
  assume a: "ps = fails @ p # rest
           \<and> (\<forall>q \<in> set fails. \<not> anchor_clicked t q \<and> (\<exists>e. hash_script q = Inl e))
           \<and> \<not> anchor_clicked t p \<and> (\<exists>u. hash_script p = Inr u)"
  then obtain u where u: "hash_script p = Inr u" by blast
  from a have "navigate_to_page t ps =
      concat (map (\<lambda>q. [SetHashFailed, Sleep]) fails) @ navigate_loop t False (p # rest)"
    by (simp add: navigate_to_page_def failed_prefix)
  also from a u have "navigate_loop t False (p # rest) =
      SetHash (''#/page/'' @ py_str t) # Sleep # navigate_loop t True rest"
    by (intro first_success) blast+
  finally show "navigate_to_page t ps =
      concat (map (\<lambda>q. [SetHashFailed, Sleep]) fails)
        @ SetHash (''#/page/'' @ py_str t) # Sleep # navigate_loop t True rest" .
  show "list_all (\<lambda>ev. ev = Sleep \<or> is_click ev) (navigate_loop t True rest)"
    by (rule attempted_tail)
qed

theorem navigate_fallback_at_most_once_witness:
  "\<not> anchor_clicked 2 (pass_script_raises [''1''])
   \<and> hash_script (pass_script_raises [''1'']) = Inl (DriverException ''javascript error'')
   \<and> \<not> anchor_clicked 2 (pass_with [''1''])
   \<and> hash_script (pass_with [''1'']) = Inr ()
   \<and> scan_pass 2 (pass_with [''1'', ''2'']) = Clicked JsClick
   \<and> navigate_to_page 2 [pass_script_raises [''1''], pass_with [''1''], pass_with [''1'', ''2'']]
       = [SetHashFailed, Sleep, SetHash ''#/page/2'', Sleep, JsClick]
   \<and> navigate_to_page 2 [pass_script_raises [''1''], pass_with [''1''], pass_with [''1'', ''2'']]
       = navigate_to_page 2 [pass_script_raises [''1''], pass_with [''1'']] @ [JsClick]
   \<and> length (filter is_set_hash
               (navigate_to_page 2
                  [pass_script_raises [''1''], pass_with [''1''], pass_with [''1'', ''2'']])) \<le> 1"
proof -
  let ?f = "pass_script_raises [''1'']"
  let ?m = "pass_with [''1'']"
  let ?c = "pass_with [''1'', ''2'']"
  let ?ps = "[?f, ?m, ?c]"
  have miss_f: "\<not> anchor_clicked 2 ?f"
    and raise_f: "hash_script ?f = Inl (DriverException ''javascript error'')"
    by (simp_all add: nav_defs pass_script_raises_def)
  have miss_m: "\<not> anchor_clicked 2 ?m" and ok_m: "hash_script ?m = Inr ()"
    by (simp_all add: nav_defs)
  have click_c: "scan_pass 2 ?c = Clicked JsClick"
    by (simp add: nav_defs)
  note inst = navigate_fallback_at_most_once [of 2 ?ps]
  have hyp_set: "?ps = [?f] @ ?m # [?c]
       \<and> (\<forall>q \<in> set [?f]. \<not> anchor_clicked 2 q \<and> (\<exists>e. hash_script q = Inl e))
       \<and> \<not> anchor_clicked 2 ?m \<and> (\<exists>u. hash_script ?m = Inr u)"
    using miss_f raise_f miss_m ok_m by simp
  from inst hyp_set
  have "navigate_to_page 2 ?ps =
          concat (map (\<lambda>q. [SetHashFailed, Sleep]) [?f])
            @ SetHash (''#/page/'' @ py_str 2) # Sleep # navigate_loop 2 True [?c]"
    by blast
  then have trace: "navigate_to_page 2 ?ps = [SetHashFailed, Sleep, SetHash ''#/page/2'', Sleep, JsClick]"
    by (simp add: click_c py_str_def digits.simps)
  have hyp_click: "?ps = [?f, ?m] @ ?c # []
       \<and> (\<forall>q \<in> set [?f, ?m]. \<not> anchor_clicked 2 q)
       \<and> scan_pass 2 ?c = Clicked JsClick"
    using miss_f miss_m click_c by simp
  from inst hyp_click
  have ret: "navigate_to_page 2 ?ps = navigate_to_page 2 [?f, ?m] @ [JsClick]"
    by blast
  from inst have bound: "length (filter is_set_hash (navigate_to_page 2 ?ps)) \<le> 1"
    by (rule conjunct1)
  from miss_f raise_f miss_m ok_m click_c trace ret bound show ?thesis
    by (intro conjI)
qed

end
